theory Spec2Isabelle
  imports Main "HOL-Library.Word"
begin

section \<open>Machine integers of the Go source\<close>

text \<open>
  \<open>int64\<close> values are modelled as \<open>int\<close> with the two's-complement wrap-around
  written out where the source computes. Go's \<open>int\<close> is taken to be 64 bits wide
  (as on every 64-bit target), so the conversions \<open>int(...)\<close> and \<open>int64(...)\<close>
  of \<open>computeParts\<close> are identities.
\<close>

definition wrap64 :: "int \<Rightarrow> int" where
  "wrap64 x = (x + 2 ^ 63) mod 2 ^ 64 - 2 ^ 63"

datatype error =
    RuntimePanic string
  | RequestError string
  | NetworkError
  | LocationError
  | HTTPStatusError int
  | TooManyRedirectsError int
  | IOError string
  | ChecksumMismatchError string string
  | PartDownloadError nat

text \<open>
  Go's integer division truncates towards zero, panics on a zero divisor and
  wraps for \<open>MinInt64 / -1\<close>.
\<close>

definition go_div :: "int \<Rightarrow> int \<Rightarrow> error + int" where
  "go_div a b =
     (if b = 0 then Inl (RuntimePanic ''integer divide by zero'')
      else Inr (wrap64 (sgn a * sgn b * (\<bar>a\<bar> div \<bar>b\<bar>))))"

section \<open>Formatting of part names\<close>

definition digit_char :: "nat \<Rightarrow> char" where
  "digit_char d = ''0123456789'' ! d"

fun decimal_nat :: "nat \<Rightarrow> string" where
  "decimal_nat n =
     (if n < 10 then [digit_char n] else decimal_nat (n div 10) @ [digit_char (n mod 10)])"

declare decimal_nat.simps [simp del]

text \<open>The verb \<open>%d\<close> of \<open>fmt.Sprintf\<close>.\<close>

definition sprintf_d :: "int \<Rightarrow> string" where
  "sprintf_d i = (if i < 0 then CHR ''-'' # decimal_nat (nat (- i)) else decimal_nat (nat i))"

section \<open>Data model\<close>

text \<open>
  Modelled from the spec: the declaration of \<open>Part\<close> (package \<open>download\<close>) is missing.
  The fields are those the code reads and writes (\<open>Name\<close>, \<open>Start\<close>, \<open>End\<close>,
  \<open>Skip\<close>, \<open>isFail\<close>), with the meaning the specification's data model gives them;
  the boolean fields have Go's zero value \<open>false\<close> in a freshly built Part.
\<close>

record Part =
  Name :: string
  Start :: int
  End :: int
  Skip :: bool
  isFail :: bool

record ActualLocation =
  Url :: string
  OutFileName :: string
  isAcceptRanges :: bool
  StatusCode :: int
  ContentLength :: int
  Parts :: "Part list"

definition NewResolvedLocation :: "string \<Rightarrow> int \<Rightarrow> string \<Rightarrow> bool \<Rightarrow> ActualLocation" where
  "NewResolvedLocation url contentLength outFileName acceptRanges =
     \<lparr> Url = url, OutFileName = outFileName, isAcceptRanges = acceptRanges,
       StatusCode = 0, ContentLength = contentLength, Parts = [] \<rparr>"

section \<open>Partitioning a resource into parts\<close>


definition minPartSize :: int where
  "minPartSize = 5 * 1024 * 1024"

text \<open>\<open>runtime.NumCPU()\<close> is a parameter of the model.\<close>

definition getMaxPartCount :: "int \<Rightarrow> int" where
  "getMaxPartCount numCPU =
     (let maxPartCount = 8;
          result = wrap64 (numCPU * 2)
      in if result > maxPartCount then maxPartCount else result)"

text \<open>
  The \<open>for\<close> loop of \<open>computeParts\<close>: the parts with index \<open>i\<close>, \<open>i + 1\<close>, ...,
  \<open>partCount - 1\<close>, the first of them starting at \<open>start\<close>.
\<close>

function computeParts_loop :: "string \<Rightarrow> int \<Rightarrow> int \<Rightarrow> int \<Rightarrow> int \<Rightarrow> int \<Rightarrow> Part list" where
  "computeParts_loop outFileName contentLength partSize partCount i start =
     (if i < partCount then
        let end0 = wrap64 (start + partSize);
            end1 = (if end0 > contentLength \<or> i = partCount - 1 then contentLength else end0);
            name = (if i = 0 then outFileName else outFileName @ ''.part'' @ sprintf_d i)
        in \<lparr> Name = name, Start = start, End = end1, Skip = False, isFail = False \<rparr>
           # computeParts_loop outFileName contentLength partSize partCount (i + 1) end1
      else [])"
  by pat_completeness auto
termination
  by (relation "measure (\<lambda>(outFileName, contentLength, partSize, partCount, i, start). nat (partCount - i))") auto

declare computeParts_loop.simps [simp del]

definition computeParts :: "int \<Rightarrow> int \<Rightarrow> ActualLocation \<Rightarrow> error + ActualLocation" where
  "computeParts numCPU minPartSize' actualLocation =
     (if ContentLength actualLocation < 0 then
        Inr (actualLocation \<lparr> Parts :=
          [\<lparr> Name = OutFileName actualLocation, Start = 0, End = - 1, Skip = False, isFail = False \<rparr>] \<rparr>)
      else
        let contentLength = ContentLength actualLocation in
        case (if contentLength \<le> minPartSize' then Inr 1
              else case go_div contentLength minPartSize' of
                     Inl e \<Rightarrow> Inl e
                   | Inr partCount \<Rightarrow>
                       let maxPartCount = getMaxPartCount numCPU
                       in Inr (if partCount > maxPartCount then maxPartCount else partCount)) of
          Inl e \<Rightarrow> Inl e
        | Inr partCount \<Rightarrow>
            (case go_div contentLength partCount of
               Inl e \<Rightarrow> Inl e
             | Inr partSize \<Rightarrow>
                 if partCount < 0 then Inl (RuntimePanic ''makeslice: len out of range'')
                 else Inr (actualLocation \<lparr> Parts :=
                        computeParts_loop (OutFileName actualLocation) contentLength partSize partCount 0 0 \<rparr>)))"

text \<open>
  The claim about the part count speaks of \<open>clamp(x, lo, hi)\<close>; this is that
  function, written from the specification's words.
\<close>

definition clamp :: "int \<Rightarrow> int \<Rightarrow> int \<Rightarrow> int" where
  "clamp x lo hi = max lo (min x hi)"

text \<open>The part count the two branches of \<open>computeParts\<close> select, used in the proofs.\<close>

definition partCountOf :: "int \<Rightarrow> int \<Rightarrow> int \<Rightarrow> int" where
  "partCountOf numCPU m L = (if L \<le> m then 1 else min (L div m) (getMaxPartCount numCPU))"

text \<open>
  \<open>deleteUnnecessaryParts\<close> walks the indices from the last one down to 0 and cuts
  out every part whose \<open>Skip\<close> flag is set; \<open>deleteUnnecessaryParts_loop (Suc i)\<close>
  is the loop at index \<open>i\<close>.
\<close>

fun deleteUnnecessaryParts_loop :: "nat \<Rightarrow> Part list \<Rightarrow> Part list" where
  "deleteUnnecessaryParts_loop 0 parts = parts"
| "deleteUnnecessaryParts_loop (Suc i) parts =
     deleteUnnecessaryParts_loop i
       (if Skip (parts ! i) then take i parts @ drop (i + 1) parts else parts)"

definition deleteUnnecessaryParts :: "ActualLocation \<Rightarrow> ActualLocation" where
  "deleteUnnecessaryParts actualLocation =
     actualLocation \<lparr> Parts :=
       deleteUnnecessaryParts_loop (length (Parts actualLocation)) (Parts actualLocation) \<rparr>"

section \<open>Resolving the location\<close>












section \<open>Digest and its encoding\<close>

type_synonym byte = "8 word"

definition base64_alphabet :: string where
  "base64_alphabet = ''ABCDEFGHIJKLMNOPQRSTUVWXYZabcdefghijklmnopqrstuvwxyz0123456789+/''"

definition base64_char :: "nat \<Rightarrow> char" where
  "base64_char n = base64_alphabet ! n"

text \<open>
  \<open>base64.StdEncoding.EncodeToString\<close>: three bytes become four characters of the
  standard alphabet, and a last group of one or two bytes is padded with \<open>=\<close>.
\<close>

fun base64_encode :: "byte list \<Rightarrow> string" where
  "base64_encode [] = []"
| "base64_encode [a] =
     (let n = unat a * 65536
      in [base64_char (n div 262144), base64_char (n div 4096 mod 64), CHR ''='', CHR ''=''])"
| "base64_encode [a, b] =
     (let n = unat a * 65536 + unat b * 256
      in [base64_char (n div 262144), base64_char (n div 4096 mod 64),
          base64_char (n div 64 mod 64), CHR ''=''])"
| "base64_encode (a # b # c # rest) =
     (let n = unat a * 65536 + unat b * 256 + unat c
      in [base64_char (n div 262144), base64_char (n div 4096 mod 64),
          base64_char (n div 64 mod 64), base64_char (n mod 64)]) @ base64_encode rest"

text \<open>
  The hexadecimal encoding of a digest, two digits a byte. The program has no
  such encoder; the definition follows the words of the claim that an expected
  digest may be given in hex.
\<close>

definition hex_char :: "nat \<Rightarrow> char" where
  "hex_char n = ''0123456789abcdef'' ! n"

definition hex_encode :: "byte list \<Rightarrow> string" where
  "hex_encode bs = concat (map (\<lambda>b. [hex_char (unat b div 16), hex_char (unat b mod 16)]) bs)"

section \<open>The file system\<close>

text \<open>
  The file system is outside the program. Its state maps a name to the bytes of
  the file of that name. The calls of the program can fail: a file can be
  missing or refuse to be opened, a read can break off after some bytes, a
  write, a close or a removal can be refused. The state records which, and it
  records every call made, in order.
\<close>

datatype access_mode = O_RDONLY | O_WRONLY | O_RDWR

record open_flags =
  access :: access_mode
  O_APPEND :: bool

record file_handle =
  h_name :: string
  h_flags :: open_flags

datatype fs_call =
    CallOpen string open_flags
  | CallRead string
  | CallWrite string "byte list"
  | CallClose string
  | CallRemove string

record filesystem =
  files :: "string \<rightharpoonup> byte list"
  open_refused :: "string set"
  read_breaks :: "string \<rightharpoonup> nat"
  write_refused :: "string set"
  close_refused :: "string set"
  remove_refused :: "string set"
  calls :: "fs_call list"

definition record_call :: "fs_call \<Rightarrow> filesystem \<Rightarrow> filesystem" where
  "record_call c fs = fs \<lparr> calls := calls fs @ [c] \<rparr>"

definition file_bytes :: "filesystem \<Rightarrow> string \<Rightarrow> byte list" where
  "file_bytes fs name = (case files fs name of None \<Rightarrow> [] | Some bs \<Rightarrow> bs)"

text \<open>\<open>os.OpenFile\<close> without \<open>O_CREATE\<close>: the file must exist.\<close>

definition os_OpenFile :: "string \<Rightarrow> open_flags \<Rightarrow> filesystem \<Rightarrow> (error + file_handle) \<times> filesystem" where
  "os_OpenFile name flags fs =
     (if files fs name = None \<or> name \<in> open_refused fs
      then (Inl (IOError name), record_call (CallOpen name flags) fs)
      else (Inr \<lparr> h_name = name, h_flags = flags \<rparr>, record_call (CallOpen name flags) fs))"

text \<open>\<open>os.Open\<close> opens for reading.\<close>

definition os_Open :: "string \<Rightarrow> filesystem \<Rightarrow> (error + file_handle) \<times> filesystem" where
  "os_Open name fs = os_OpenFile name \<lparr> access = O_RDONLY, O_APPEND = False \<rparr> fs"

text \<open>
  Reading a file from its start until the end of the file or an error: the bytes
  delivered, and whether the reading ended in an error. A handle opened
  write-only cannot be read.
\<close>

definition read_to_end :: "file_handle \<Rightarrow> filesystem \<Rightarrow> (byte list \<times> bool) \<times> filesystem" where
  "read_to_end h fs =
     (let bs = file_bytes fs (h_name h);
          fs' = record_call (CallRead (h_name h)) fs
      in if access (h_flags h) = O_WRONLY then (([], True), fs')
         else case read_breaks fs (h_name h) of
                None \<Rightarrow> ((bs, False), fs')
              | Some k \<Rightarrow> if k < length bs then ((take k bs, True), fs') else ((bs, False), fs'))"

text \<open>
  Writing bytes through a handle: whether the write failed. Every handle the
  program writes through is opened with \<open>O_APPEND\<close>, so the bytes go to the end of
  the file. A handle opened read-only cannot be written.
\<close>

definition write_bytes :: "file_handle \<Rightarrow> byte list \<Rightarrow> filesystem \<Rightarrow> bool \<times> filesystem" where
  "write_bytes h bs fs =
     (let fs' = record_call (CallWrite (h_name h) bs) fs
      in if access (h_flags h) = O_RDONLY \<or> h_name h \<in> write_refused fs then (True, fs')
         else (False, fs' \<lparr> files := (files fs') (h_name h \<mapsto> file_bytes fs (h_name h) @ bs) \<rparr>))"

text \<open>
  \<open>io.CopyBuffer(dst, src, buf)\<close> from one file into another: the bytes read from
  the source (a tee reader feeds exactly these to the digest), and whether the
  copy returned an error. Nothing is written when nothing was read.
\<close>

definition copy_file :: "file_handle \<Rightarrow> file_handle \<Rightarrow> filesystem \<Rightarrow> (byte list \<times> bool) \<times> filesystem" where
  "copy_file dst src fs =
     (case read_to_end src fs of
        ((bs, readFailed), fs1) \<Rightarrow>
          if bs = [] then ((bs, readFailed), fs1)
          else case write_bytes dst bs fs1 of
                 (writeFailed, fs2) \<Rightarrow> ((bs, writeFailed \<or> readFailed), fs2))"

text \<open>
  \<open>fsutil.CloseAndCheckError(err, file)\<close> closes the file and returns the error it
  was given or, when there was none, the error of closing.
\<close>

definition CloseAndCheckError :: "bool \<Rightarrow> file_handle \<Rightarrow> filesystem \<Rightarrow> error option \<times> filesystem" where
  "CloseAndCheckError failed h fs =
     (if failed \<or> h_name h \<in> close_refused fs
      then (Some (IOError (h_name h)), record_call (CallClose (h_name h)) fs)
      else (None, record_call (CallClose (h_name h)) fs))"

text \<open>\<open>util.Close\<close>, deferred: closes the file; an error is logged only.\<close>

definition util_Close :: "file_handle \<Rightarrow> filesystem \<Rightarrow> filesystem" where
  "util_Close h fs = record_call (CallClose (h_name h)) fs"

text \<open>\<open>os.Remove\<close>: whether the removal failed.\<close>

definition os_Remove :: "string \<Rightarrow> filesystem \<Rightarrow> bool \<times> filesystem" where
  "os_Remove name fs =
     (let fs' = record_call (CallRemove name) fs
      in if files fs name = None \<or> name \<in> remove_refused fs then (True, fs')
         else (False, fs' \<lparr> files := (files fs') (name := None) \<rparr>))"

section \<open>Reassembly and verification\<close>

text \<open>
  The loop of \<open>concatenateParts\<close> over the parts with index 1 and above. The
  running digest is represented by the bytes written to it so far.
\<close>

fun concatenateParts_loop ::
  "bool \<Rightarrow> file_handle \<Rightarrow> Part list \<Rightarrow> byte list \<Rightarrow> filesystem \<Rightarrow> (error + byte list) \<times> filesystem" where
  "concatenateParts_loop hasCheckSum totalFile [] inputHash fs = (Inr inputHash, fs)"
| "concatenateParts_loop hasCheckSum totalFile (part # parts) inputHash fs =
     (let partFileName = Name part in
      case os_Open partFileName fs of
        (Inl err, fs1) \<Rightarrow> (Inl err, fs1)
      | (Inr partFile, fs1) \<Rightarrow>
          (case copy_file totalFile partFile fs1 of
             ((bs, failed), fs2) \<Rightarrow>
               (case CloseAndCheckError failed partFile fs2 of
                  (Some err, fs3) \<Rightarrow> (Inl err, fs3)
                | (None, fs3) \<Rightarrow>
                    concatenateParts_loop hasCheckSum totalFile parts
                      (if hasCheckSum then inputHash @ bs else inputHash)
                      (snd (os_Remove partFileName fs3)))))"

text \<open>
  \<open>concatenateParts\<close>. The SHA-512 function of the standard library is the
  parameter \<open>sha512_sum\<close>, from the bytes written to the digest to the 64 bytes
  of \<open>Sum(nil)\<close>.
\<close>

definition concatenateParts ::
  "(byte list \<Rightarrow> byte list) \<Rightarrow> ActualLocation \<Rightarrow> string \<Rightarrow> filesystem \<Rightarrow> error option \<times> filesystem" where
  "concatenateParts sha512_sum actualLocation expectedSha512 fs =
     (let hasCheckSum = (length expectedSha512 \<noteq> 0) in
      case (if hasCheckSum then
              (if length (Parts actualLocation) = 1
               then Some \<lparr> access = O_RDONLY, O_APPEND = False \<rparr>
               else Some \<lparr> access = O_RDWR, O_APPEND = True \<rparr>)
            else
              (if length (Parts actualLocation) = 1 then None
               else Some \<lparr> access = O_WRONLY, O_APPEND = True \<rparr>)) of
        None \<Rightarrow> (None, fs)
      | Some fileMode \<Rightarrow>
          (case Parts actualLocation of
             [] \<Rightarrow> (Some (RuntimePanic ''index out of range''), fs)
           | part0 # parts \<Rightarrow>
               (case os_OpenFile (Name part0) fileMode fs of
                  (Inl err, fs1) \<Rightarrow> (Some err, fs1)
                | (Inr totalFile, fs1) \<Rightarrow>
                    (case (if hasCheckSum then
                             (case read_to_end totalFile fs1 of
                                ((bs, failed), fs2) \<Rightarrow>
                                  if failed then (Inl (IOError (h_name totalFile)), fs2)
                                  else (Inr bs, fs2))
                           else (Inr [], fs1)) of
                       (Inl err, fs2) \<Rightarrow> (Some err, util_Close totalFile fs2)
                     | (Inr inputHash, fs2) \<Rightarrow>
                         (case concatenateParts_loop hasCheckSum totalFile parts inputHash fs2 of
                            (Inl err, fs3) \<Rightarrow> (Some err, util_Close totalFile fs3)
                          | (Inr inputHash', fs3) \<Rightarrow>
                              if hasCheckSum then
                                let actualCheckSum = base64_encode (sha512_sum inputHash') in
                                if actualCheckSum \<noteq> expectedSha512
                                then (Some (ChecksumMismatchError expectedSha512 actualCheckSum),
                                      util_Close totalFile fs3)
                                else (None, util_Close totalFile fs3)
                              else (None, util_Close totalFile fs3))))))"

section \<open>Downloading the parts\<close>

text \<open>
  Modelled from the spec: \<open>util.MapAsyncConcurrency\<close> (package \<open>util\<close>) is
  missing. By the specification (ConcurrencyLimiter) it runs \<open>taskCount\<close> tasks,
  at most \<open>maxWorkers\<close> at a time, dispatched in the order of their indices; all
  tasks are attempted even after one has failed, and the first error encountered
  is returned after all tasks have finished. The model runs the tasks one after
  the other in the order of dispatch, each on the state the one before left, so
  the first error is that of the failing task with the lowest index.
\<close>

fun MapAsyncConcurrency_run ::
  "nat list \<Rightarrow> (nat \<Rightarrow> 's \<Rightarrow> error option \<times> 's) \<Rightarrow> error option \<Rightarrow> 's \<Rightarrow> error option \<times> 's" where
  "MapAsyncConcurrency_run [] task firstError s = (firstError, s)"
| "MapAsyncConcurrency_run (index # indices) task firstError s =
     (case task index s of
        (err, s') \<Rightarrow>
          MapAsyncConcurrency_run indices task
            (if firstError = None then err else firstError) s')"

definition MapAsyncConcurrency ::
  "nat \<Rightarrow> int \<Rightarrow> (nat \<Rightarrow> 's \<Rightarrow> error option \<times> 's) \<Rightarrow> 's \<Rightarrow> error option \<times> 's" where
  "MapAsyncConcurrency taskCount maxWorkers task s =
     MapAsyncConcurrency_run [0..<taskCount] task None s"

text \<open>
  Modelled from the spec: \<open>Part.download\<close> (package \<open>download\<close>) is missing. By the
  specification (PartDownloader) it fetches one byte range of the resolved URL
  into the file of the part and fails or succeeds; it is a parameter of the
  model, from the URL, the index, the part and the file system to its error, the
  part and the file system afterwards.
\<close>

type_synonym part_download =
  "string \<Rightarrow> nat \<Rightarrow> Part \<Rightarrow> filesystem \<Rightarrow> error option \<times> Part \<times> filesystem"

text \<open>
  The state \<open>DownloadResolved\<close> works on: the location with its parts, the file
  system, and whether \<open>cancel()\<close> of the download context has been called by
  the function itself.
\<close>

record download_state =
  location :: ActualLocation
  fsys :: filesystem
  cancelled :: bool

text \<open>The task of one part: download it and, on failure, mark the part as failed.\<close>

definition download_task :: "part_download \<Rightarrow> nat \<Rightarrow> download_state \<Rightarrow> error option \<times> download_state" where
  "download_task download index s =
     (let part = Parts (location s) ! index in
      case download (Url (location s)) index part (fsys s) of
        (err, part', fs') \<Rightarrow>
          (err,
           s \<lparr> location := (location s) \<lparr> Parts :=
                  (Parts (location s)) [index := (if err \<noteq> None then part' \<lparr> isFail := True \<rparr> else part')] \<rparr>,
               fsys := fs' \<rparr>))"

definition DownloadResolved ::
  "int \<Rightarrow> (byte list \<Rightarrow> byte list) \<Rightarrow> part_download \<Rightarrow> ActualLocation \<Rightarrow> string \<Rightarrow> filesystem
     \<Rightarrow> error option \<times> download_state" where
  "DownloadResolved numCPU sha512_sum download location0 sha512 fs =
     (case computeParts numCPU minPartSize location0 of
        Inl panic \<Rightarrow> (Some panic, \<lparr> location = location0, fsys = fs, cancelled = False \<rparr>)
      | Inr location1 \<Rightarrow>
          (case MapAsyncConcurrency (length (Parts location1)) (getMaxPartCount numCPU)
                  (download_task download)
                  \<lparr> location = location1, fsys = fs, cancelled = False \<rparr> of
             (Some err, s) \<Rightarrow> (Some err, s)
           | (None, s) \<Rightarrow>
               let s1 = (if list_ex isFail (Parts (location s)) then s \<lparr> cancelled := True \<rparr> else s);
                   s2 = s1 \<lparr> location := deleteUnnecessaryParts (location s1) \<rparr>
               in case concatenateParts sha512_sum (location s2) sha512 (fsys s2) of
                    (Some err, fs') \<Rightarrow> (Some err, s2 \<lparr> fsys := fs' \<rparr>)
                  | (None, fs') \<Rightarrow> (None, s2 \<lparr> fsys := fs' \<rparr>)))"


text \<open>
  A file the calls of the program succeed on: it exists and none of the
  failures is set for its name.
\<close>

definition sound_file :: "filesystem \<Rightarrow> string \<Rightarrow> bool" where
  "sound_file fs name \<longleftrightarrow>
     files fs name \<noteq> None \<and> name \<notin> open_refused fs \<and> read_breaks fs name = None \<and>
     name \<notin> write_refused fs \<and> name \<notin> close_refused fs \<and> name \<notin> remove_refused fs"

text \<open>The bytes of the files of the parts, one after the other.\<close>

definition assembled :: "filesystem \<Rightarrow> Part list \<Rightarrow> byte list" where
  "assembled fs parts = concat (map (\<lambda>p. file_bytes fs (Name p)) parts)"

section \<open>Concrete downloads\<close>

text \<open>
  The inputs the statements below are evaluated at. A file of three bytes
  downloaded as one part, and a file of five bytes downloaded as two parts; the
  file system has no failure set and no call recorded.
\<close>

definition one_part_location :: ActualLocation where
  "one_part_location =
     \<lparr> Url = ''http://host/f'', OutFileName = ''out.bin'', isAcceptRanges = True,
       StatusCode = 0, ContentLength = 3,
       Parts = [\<lparr> Name = ''out.bin'', Start = 0, End = 3, Skip = False, isFail = False \<rparr>] \<rparr>"

definition one_part_files :: filesystem where
  "one_part_files =
     \<lparr> files = [''out.bin'' \<mapsto> [1, 2, 3]],
       open_refused = {}, read_breaks = Map.empty, write_refused = {}, close_refused = {},
       remove_refused = {}, calls = [] \<rparr>"



text \<open>The SHA-512 digests of the byte sequences \<open>01 02 03\<close> and \<open>01 02 03 04 05\<close>.\<close>

definition sha512_of_010203 :: "byte list" where
  "sha512_of_010203 =
     [39, 134, 76, 197, 33, 154, 149, 26, 122, 110, 82, 184, 200, 221, 223, 105,
      129, 208, 152, 218, 22, 88, 217, 98, 88, 200, 112, 178, 200, 141, 251, 203,
      81, 132, 26, 234, 23, 42, 40, 186, 250, 106, 121, 115, 17, 101, 88, 70,
      119, 6, 96, 69, 201, 89, 237, 15, 153, 41, 104, 141, 4, 222, 252, 41]"

definition sha512_of_0102030405 :: "byte list" where
  "sha512_of_0102030405 =
     [80, 84, 11, 196, 174, 49, 135, 95, 206, 179, 130, 148, 52, 197, 94, 60,
      43, 102, 221, 215, 34, 122, 136, 58, 59, 76, 200, 246, 205, 169, 101, 173,
      23, 18, 179, 238, 0, 8, 249, 206, 224, 141, 169, 63, 82, 52, 193, 167,
      191, 14, 37, 112, 239, 86, 214, 82, 128, 255, 234, 105, 27, 149, 62, 254]"

text \<open>
  The values of SHA-512 at these two byte sequences, as a function to put in the
  place of the digest of the standard library; at every other input, which no
  statement below reaches, it is empty.
\<close>

definition sha512_table :: "byte list \<Rightarrow> byte list" where
  "sha512_table bs =
     (if bs = [1, 2, 3] then sha512_of_010203
      else if bs = [1, 2, 3, 4, 5] then sha512_of_0102030405
      else [])"


text \<open>
  A resource of 40 MiB, which four processors download in eight parts, on an
  empty file system; and a run of the part downloads in which the request for
  part 3 fails while every other part arrives. The bytes that arrive are left
  out of the files, only their names are created: no statement below looks at
  them.
\<close>

definition eight_part_location :: ActualLocation where
  "eight_part_location = NewResolvedLocation ''http://host/f'' (40 * 1024 * 1024) ''out.bin'' True"

definition empty_files :: filesystem where
  "empty_files =
     \<lparr> files = Map.empty,
       open_refused = {}, read_breaks = Map.empty, write_refused = {}, close_refused = {},
       remove_refused = {}, calls = [] \<rparr>"

definition part_3_fails :: part_download where
  "part_3_fails url index part fs =
     (if index = 3 then (Some (PartDownloadError 3), part, fs)
      else (None, part, fs \<lparr> files := (files fs) (Name part \<mapsto> []) \<rparr>))"

section \<open>Properties of the partition\<close>

lemma wrap64_id: "- (2 ^ 63) \<le> x \<Longrightarrow> x < 2 ^ 63 \<Longrightarrow> wrap64 x = x"
  by (simp add: wrap64_def)

lemma getMaxPartCount_range:
  assumes "1 \<le> numCPU" "numCPU < 2 ^ 62"
  shows "2 \<le> getMaxPartCount numCPU \<and> getMaxPartCount numCPU \<le> 8"
proof -
  have "wrap64 (numCPU * 2) = numCPU * 2"
    using assms by (intro wrap64_id) auto
  then show ?thesis using assms by (simp add: getMaxPartCount_def Let_def)
qed

lemma div_le_self_int: "0 \<le> (a::int) \<Longrightarrow> 0 < b \<Longrightarrow> a div b \<le> a"
  by (metis div_by_1 int_one_le_iff_zero_less nle_le zdiv_mono2)

lemma go_div_nonneg:
  assumes "0 \<le> a" "a < 2 ^ 63" "0 < b"
  shows "go_div a b = Inr (a div b)"
proof -
  have "a div b \<le> a" using assms by (simp add: div_le_self_int)
  moreover have "0 \<le> a div b" using assms by (simp add: pos_imp_zdiv_nonneg_iff)
  ultimately have w: "wrap64 (a div b) = a div b" using assms by (intro wrap64_id) auto
  have s: "sgn a * sgn b * (\<bar>a\<bar> div \<bar>b\<bar>) = a div b"
    using assms by (cases "a = 0") (auto simp: sgn_if)
  have "b \<noteq> 0" using assms by simp
  then show ?thesis unfolding go_div_def by (simp only: s w if_False)
qed

lemma computeParts_loop_length:
  "i \<le> pc \<Longrightarrow> length (computeParts_loop out L ps pc i s) = nat (pc - i)"
proof (induction out L ps pc i s rule: computeParts_loop.induct)
  case (1 out L ps pc i s)
  show ?case
  proof (cases "i < pc")
    case True
    have "length (computeParts_loop out L ps pc i s) = Suc (nat (pc - (i + 1)))"
      using True "1.IH" by (subst computeParts_loop.simps) (simp add: Let_def)
    then show ?thesis using True by simp
  next
    case False
    then show ?thesis using "1.prems" by (subst computeParts_loop.simps) simp
  qed
qed

lemma computeParts_loop_nth:
  assumes "0 \<le> ps" "pc * ps \<le> L" "L < 2 ^ 63" "0 \<le> i" "s = i * ps"
    and "k < nat (pc - i)"
  shows "computeParts_loop out L ps pc i s ! k =
     \<lparr> Name = (if i + int k = 0 then out else out @ ''.part'' @ sprintf_d (i + int k)),
       Start = (i + int k) * ps,
       End = (if i + int k = pc - 1 then L else (i + int k + 1) * ps),
       Skip = False, isFail = False \<rparr>"
  using assms
proof (induction out L ps pc i s arbitrary: k rule: computeParts_loop.induct)
  case (1 out L ps pc i s)
  from "1.prems" have lt: "i < pc" by simp
  have le: "(i + 1) * ps \<le> pc * ps"
    using lt "1.prems"(1) by (intro mult_right_mono) auto
  have nn: "0 \<le> i * ps" using "1.prems" by simp
  have b1: "s + ps \<le> L" using le "1.prems" by (simp add: algebra_simps)
  have b2: "0 \<le> s + ps" using nn "1.prems" by simp
  have w: "wrap64 (s + ps) = s + ps"
    using b1 b2 "1.prems"(3) by (intro wrap64_id) auto
  define e where "e = (if i = pc - 1 then L else s + ps)"
  have unfold: "computeParts_loop out L ps pc i s =
      \<lparr> Name = (if i = 0 then out else out @ ''.part'' @ sprintf_d i), Start = s, End = e,
        Skip = False, isFail = False \<rparr> # computeParts_loop out L ps pc (i + 1) e"
    using lt b1 w by (subst computeParts_loop.simps) (simp add: Let_def e_def)
  show ?case
  proof (cases k)
    case 0
    then show ?thesis using unfold "1.prems" by (simp add: e_def algebra_simps)
  next
    case (Suc k')
    show ?thesis
    proof (cases "i = pc - 1")
      case True
      then show ?thesis using Suc "1.prems" by simp
    next
      case False
      then have e: "e = (i + 1) * ps" using "1.prems" by (simp add: e_def algebra_simps)
      have k': "k' < nat (pc - (i + 1))" using Suc "1.prems" by simp
      have "wrap64 (s + ps) \<le> L" using w b1 by simp
      then have e0: "(if wrap64 (s + ps) > L \<or> i = pc - 1 then L else wrap64 (s + ps)) = e"
        using w by (simp add: e_def)
      have IH: "computeParts_loop out L ps pc (i + 1) e ! k' =
          \<lparr> Name = (if i + 1 + int k' = 0 then out else out @ ''.part'' @ sprintf_d (i + 1 + int k')),
            Start = (i + 1 + int k') * ps,
            End = (if i + 1 + int k' = pc - 1 then L else (i + 1 + int k' + 1) * ps),
            Skip = False, isFail = False \<rparr>"
        using "1.IH"[OF lt refl e0[symmetric] refl "1.prems"(1,2,3) _ e k'] "1.prems"(4) e0 by simp
      have eq: "i + 1 + int k' = i + int k" using Suc by simp
      show ?thesis using unfold IH Suc unfolding eq by simp
    qed
  qed
qed


lemma div_ge_one_int: "0 < (m::int) \<Longrightarrow> m \<le> L \<Longrightarrow> 1 \<le> L div m"
  using zdiv_mono1[of m L m] by simp

lemma partCountOf_range:
  assumes "0 \<le> L" "0 < m" "1 \<le> numCPU" "numCPU < 2 ^ 62"
  shows "1 \<le> partCountOf numCPU m L" "partCountOf numCPU m L \<le> getMaxPartCount numCPU"
proof -
  have mx: "2 \<le> getMaxPartCount numCPU" using getMaxPartCount_range assms by simp
  have "m < L \<Longrightarrow> 1 \<le> L div m" using assms div_ge_one_int[of m L] by simp
  then show "1 \<le> partCountOf numCPU m L" using mx by (auto simp: partCountOf_def)
  show "partCountOf numCPU m L \<le> getMaxPartCount numCPU"
    using mx by (auto simp: partCountOf_def)
qed

lemma computeParts_known_length:
  assumes "0 \<le> ContentLength loc" "ContentLength loc < 2 ^ 63" "0 < m"
    and "1 \<le> numCPU" "numCPU < 2 ^ 62"
  shows "computeParts numCPU m loc =
     Inr (loc \<lparr> Parts := computeParts_loop (OutFileName loc) (ContentLength loc)
            (ContentLength loc div partCountOf numCPU m (ContentLength loc))
            (partCountOf numCPU m (ContentLength loc)) 0 0 \<rparr>)"
proof -
  define L where "L = ContentLength loc"
  define pc where "pc = partCountOf numCPU m L"
  have pc: "1 \<le> pc" using partCountOf_range(1)[of L m numCPU] assms by (simp add: pc_def L_def)
  have d1: "go_div L m = Inr (L div m)" using assms by (simp add: go_div_nonneg L_def)
  have d2: "go_div L pc = Inr (L div pc)" using assms pc by (simp add: go_div_nonneg L_def)
  have nn: "\<not> L < 0" using assms by (simp add: L_def)
  show ?thesis
  proof (cases "L \<le> m")
    case True
    then have "pc = 1" by (simp add: pc_def partCountOf_def)
    then show ?thesis
      using True nn d2 unfolding computeParts_def L_def[symmetric] pc_def[symmetric]
      by (simp add: Let_def)
  next
    case False
    then have "pc = (if L div m > getMaxPartCount numCPU then getMaxPartCount numCPU else L div m)"
      by (simp add: pc_def partCountOf_def min_def)
    then show ?thesis
      using False nn d1 d2 pc unfolding computeParts_def L_def[symmetric] pc_def[symmetric]
      by (simp add: Let_def)
  qed
qed

lemma partCount_times_size:
  assumes "0 \<le> (L::int)" "1 \<le> pc"
  shows "0 \<le> L div pc" "pc * (L div pc) \<le> L"
proof -
  show "0 \<le> L div pc" using assms by (simp add: pos_imp_zdiv_nonneg_iff)
  have "pc * (L div pc) + L mod pc = L" by simp
  moreover have "0 \<le> L mod pc" using assms by simp
  ultimately show "pc * (L div pc) \<le> L" by linarith
qed

text \<open>
  Claim C7. When the content length is negative (unknown), \<open>computeParts\<close>
  produces exactly one part: its name is the name of the output file, its start
  is 0 and its end is the sentinel \<open>-1\<close>. This holds for every minimal part size
  and every number of processors.
\<close>

theorem computeParts_unknown_length:
  assumes "ContentLength loc < 0"
  shows "computeParts numCPU m loc =
     Inr (loc \<lparr> Parts := [\<lparr> Name = OutFileName loc, Start = 0, End = - 1, Skip = False, isFail = False \<rparr>] \<rparr>)"
  using assms by (simp add: computeParts_def)

text \<open>The hypothesis of C7 at a location of unknown length.\<close>

theorem computeParts_unknown_length_witness:
  "ContentLength (NewResolvedLocation ''http://host/f'' (- 1) ''out.bin'' False) < 0 \<and>
   computeParts 4 minPartSize (NewResolvedLocation ''http://host/f'' (- 1) ''out.bin'' False) =
     Inr \<lparr> Url = ''http://host/f'', OutFileName = ''out.bin'', isAcceptRanges = False,
           StatusCode = 0, ContentLength = - 1,
           Parts = [\<lparr> Name = ''out.bin'', Start = 0, End = - 1, Skip = False, isFail = False \<rparr>] \<rparr>"
proof -
  have h: "ContentLength (NewResolvedLocation ''http://host/f'' (- 1) ''out.bin'' False) < 0"
    by (simp add: NewResolvedLocation_def)
  show ?thesis
    using h computeParts_unknown_length [OF h, of 4 minPartSize]
    by (simp add: NewResolvedLocation_def)
qed

text \<open>
  Claim C1. For a content length \<open>L\<close> with \<open>0 \<le> L\<close> (an \<open>int64\<close>, so \<open>L < 2^63\<close>) and a
  positive minimal part size, on a machine with at least one processor,
  \<open>computeParts\<close> returns a non-empty list of parts: the first starts at 0, each
  next part starts where the one before ends, no part ends before it starts, the
  last part ends at \<open>L\<close>, and there are at most \<open>getMaxPartCount\<close> parts.
\<close>

theorem computeParts_partition:
  assumes "0 \<le> ContentLength loc" "ContentLength loc < 2 ^ 63" "0 < m"
    and "1 \<le> numCPU" "numCPU < 2 ^ 62"
  shows "\<exists>ps. computeParts numCPU m loc = Inr (loc \<lparr> Parts := ps \<rparr>)
           \<and> ps \<noteq> []
           \<and> Start (hd ps) = 0
           \<and> (\<forall>i. i + 1 < length ps \<longrightarrow> Start (ps ! (i + 1)) = End (ps ! i))
           \<and> (\<forall>i < length ps. Start (ps ! i) \<le> End (ps ! i))
           \<and> End (last ps) = ContentLength loc
           \<and> int (length ps) \<le> getMaxPartCount numCPU"
proof -
  define L where "L = ContentLength loc"
  define pc where "pc = partCountOf numCPU m L"
  define sz where "sz = L div pc"
  define ps where "ps = computeParts_loop (OutFileName loc) L sz pc 0 0"
  have L: "0 \<le> L" "L < 2 ^ 63" using assms by (simp_all add: L_def)
  have pc: "1 \<le> pc" "pc \<le> getMaxPartCount numCPU"
    using partCountOf_range[of L m numCPU] L assms by (simp_all add: pc_def)
  have sz: "0 \<le> sz" "pc * sz \<le> L"
    using partCount_times_size[of L pc] L pc by (simp_all add: sz_def)
  have len: "length ps = nat pc" using computeParts_loop_length[of 0 pc] pc by (simp add: ps_def)
  have nth: "ps ! k = \<lparr> Name = (if int k = 0 then OutFileName loc
                                 else OutFileName loc @ ''.part'' @ sprintf_d (int k)),
                        Start = int k * sz,
                        End = (if int k = pc - 1 then L else (int k + 1) * sz),
                        Skip = False, isFail = False \<rparr>" if "k < nat pc" for k
    using computeParts_loop_nth[of sz pc L 0 0 k "OutFileName loc"] sz L that by (simp add: ps_def)
  have res: "computeParts numCPU m loc = Inr (loc \<lparr> Parts := ps \<rparr>)"
    using computeParts_known_length[OF assms] by (simp add: ps_def sz_def pc_def L_def)
  have ne: "ps \<noteq> []" using len pc by auto
  have hd: "Start (hd ps) = 0" using nth[of 0] pc ne by (simp add: hd_conv_nth)
  have contiguous: "Start (ps ! (i + 1)) = End (ps ! i)" if "i + 1 < length ps" for i
  proof -
    have "i < nat pc" "i + 1 < nat pc" using that len by simp_all
    moreover have "int i \<noteq> pc - 1" using that len by auto
    ultimately show ?thesis using nth[of i] nth[of "i + 1"] by (simp add: algebra_simps)
  qed
  have ordered: "Start (ps ! i) \<le> End (ps ! i)" if "i < length ps" for i
  proof (cases "int i = pc - 1")
    case True
    then have "int i * sz \<le> pc * sz" using sz by (intro mult_right_mono) auto
    then show ?thesis using nth[of i] that len True sz by simp
  next
    case False
    have "int i * sz \<le> (int i + 1) * sz" using sz by (intro mult_right_mono) auto
    then show ?thesis using nth[of i] that len False by simp
  qed
  have last: "End (last ps) = L"
  proof -
    have "last ps = ps ! (nat pc - 1)" using ne len by (simp add: last_conv_nth)
    moreover have "int (nat pc - 1) = pc - 1" using pc by simp
    ultimately show ?thesis using nth[of "nat pc - 1"] pc by simp
  qed
  have "int (length ps) \<le> getMaxPartCount numCPU" using len pc by simp
  with res ne hd contiguous ordered last show ?thesis unfolding L_def by blast
qed


text \<open>The hypotheses of C1 at 20 MiB, a minimal part size of 5 MiB and 4 processors.\<close>

theorem computeParts_partition_witness:
  "0 \<le> ContentLength (NewResolvedLocation ''http://host/f'' 20971520 ''out.bin'' True) \<and>
   ContentLength (NewResolvedLocation ''http://host/f'' 20971520 ''out.bin'' True) < 2 ^ 63 \<and>
   (0::int) < 5242880 \<and> (1::int) \<le> 4 \<and> (4::int) < 2 ^ 62 \<and>
   (\<exists>ps. computeParts 4 5242880 (NewResolvedLocation ''http://host/f'' 20971520 ''out.bin'' True) =
           Inr (NewResolvedLocation ''http://host/f'' 20971520 ''out.bin'' True \<lparr> Parts := ps \<rparr>)
         \<and> ps \<noteq> []
         \<and> Start (hd ps) = 0
         \<and> (\<forall>i. i + 1 < length ps \<longrightarrow> Start (ps ! (i + 1)) = End (ps ! i))
         \<and> (\<forall>i < length ps. Start (ps ! i) \<le> End (ps ! i))
         \<and> End (last ps) = 20971520
         \<and> int (length ps) \<le> getMaxPartCount 4)"
  using computeParts_partition [of "NewResolvedLocation ''http://host/f'' 20971520 ''out.bin'' True" 5242880 4]
  by (simp add: NewResolvedLocation_def)

lemma partCountOf_clamp:
  assumes "0 \<le> L" "0 < m" "1 \<le> numCPU" "numCPU < 2 ^ 62"
  shows "partCountOf numCPU m L = clamp (L div m) 1 (getMaxPartCount numCPU)"
proof -
  have mx: "2 \<le> getMaxPartCount numCPU" using getMaxPartCount_range assms by simp
  show ?thesis
  proof (cases "L \<le> m")
    case True
    have "L div m \<le> 1"
      using zdiv_mono1[of L m m] True assms by simp
    then show ?thesis using True mx by (simp add: partCountOf_def clamp_def)
  next
    case False
    then have "1 \<le> L div m" using div_ge_one_int[of m L] assms by simp
    then show ?thesis using False mx by (simp add: partCountOf_def clamp_def)
  qed
qed

text \<open>
  Claim C2. For a content length \<open>L\<close> with \<open>0 \<le> L\<close>, \<open>computeParts\<close> with the
  minimal part size of 5 MiB makes \<open>partCount = clamp(L / minPartSize, 1, maxWorkers)\<close>
  parts; part \<open>i\<close> starts at \<open>i * (L / partCount)\<close> and ends at
  \<open>(i + 1) * (L / partCount)\<close>, except the last one, which ends at \<open>L\<close>. With 20 MiB
  and 8 workers these are 4 parts of 5 MiB each.
\<close>

theorem computeParts_equal_width:
  assumes "0 \<le> ContentLength loc" "ContentLength loc < 2 ^ 63"
    and "1 \<le> numCPU" "numCPU < 2 ^ 62"
  shows "\<exists>ps partCount.
           computeParts numCPU minPartSize loc = Inr (loc \<lparr> Parts := ps \<rparr>)
         \<and> partCount = clamp (ContentLength loc div minPartSize) 1 (getMaxPartCount numCPU)
         \<and> minPartSize = 5 * 1024 * 1024
         \<and> int (length ps) = partCount
         \<and> (\<forall>i < length ps.
               Start (ps ! i) = int i * (ContentLength loc div partCount)
             \<and> End (ps ! i) = (if int i = partCount - 1 then ContentLength loc
                               else (int i + 1) * (ContentLength loc div partCount)))
         \<and> (ContentLength loc = 20 * 1024 * 1024 \<and> getMaxPartCount numCPU = 8 \<longrightarrow>
               map (\<lambda>p. (Start p, End p)) ps =
                 [(0, 5 * 1024 * 1024), (5 * 1024 * 1024, 10 * 1024 * 1024),
                  (10 * 1024 * 1024, 15 * 1024 * 1024), (15 * 1024 * 1024, 20 * 1024 * 1024)])"
proof -
  define L where "L = ContentLength loc"
  define pc where "pc = partCountOf numCPU minPartSize L"
  define sz where "sz = L div pc"
  define ps where "ps = computeParts_loop (OutFileName loc) L sz pc 0 0"
  have m: "0 < minPartSize" by (simp add: minPartSize_def)
  have L: "0 \<le> L" "L < 2 ^ 63" using assms by (simp_all add: L_def)
  have pc: "1 \<le> pc" using partCountOf_range(1)[of L minPartSize numCPU] L m assms by (simp add: pc_def)
  have pc_clamp: "pc = clamp (L div minPartSize) 1 (getMaxPartCount numCPU)"
    using partCountOf_clamp[of L minPartSize numCPU] L m assms by (simp add: pc_def)
  have sz: "0 \<le> sz" "pc * sz \<le> L"
    using partCount_times_size[of L pc] L pc by (simp_all add: sz_def)
  have len: "length ps = nat pc" using computeParts_loop_length[of 0 pc] pc by (simp add: ps_def)
  have nth: "ps ! k = \<lparr> Name = (if int k = 0 then OutFileName loc
                                 else OutFileName loc @ ''.part'' @ sprintf_d (int k)),
                        Start = int k * sz,
                        End = (if int k = pc - 1 then L else (int k + 1) * sz),
                        Skip = False, isFail = False \<rparr>" if "k < nat pc" for k
    using computeParts_loop_nth[of sz pc L 0 0 k "OutFileName loc"] sz L that by (simp add: ps_def)
  have res: "computeParts numCPU minPartSize loc = Inr (loc \<lparr> Parts := ps \<rparr>)"
    using computeParts_known_length[OF assms(1,2) m assms(3,4)]
    by (simp add: ps_def sz_def pc_def L_def)
  have len': "int (length ps) = pc" using len pc by simp
  have ranges: "\<forall>i < length ps. Start (ps ! i) = int i * (L div pc)
       \<and> End (ps ! i) = (if int i = pc - 1 then L else (int i + 1) * (L div pc))"
    using nth len by (simp add: sz_def)
  have example: "map (\<lambda>p. (Start p, End p)) ps =
                 [(0, 5 * 1024 * 1024), (5 * 1024 * 1024, 10 * 1024 * 1024),
                  (10 * 1024 * 1024, 15 * 1024 * 1024), (15 * 1024 * 1024, 20 * 1024 * 1024)]"
    if "L = 20 * 1024 * 1024" "getMaxPartCount numCPU = 8"
  proof -
    have pc4: "pc = 4" using pc_clamp that by (simp add: clamp_def minPartSize_def)
    then have sz5: "sz = 5242880" using that by (simp add: sz_def)
    have l4: "length ps = 4" using len pc4 by simp
    have "ps = [ps ! 0, ps ! 1, ps ! 2, ps ! 3]"
      using l4 by (intro nth_equalityI) (auto simp: nth_Cons' less_Suc_eq numeral_eq_Suc)
    then have "map (\<lambda>p. (Start p, End p)) ps = map (\<lambda>p. (Start p, End p)) [ps ! 0, ps ! 1, ps ! 2, ps ! 3]"
      by simp
    also have "\<dots> = [(0, 5 * 1024 * 1024), (5 * 1024 * 1024, 10 * 1024 * 1024),
                  (10 * 1024 * 1024, 15 * 1024 * 1024), (15 * 1024 * 1024, 20 * 1024 * 1024)]"
      using nth[of 0] nth[of 1] nth[of 2] nth[of 3] pc4 sz5 that by simp
    finally show ?thesis .
  qed
  show ?thesis
    using res pc_clamp len' ranges example unfolding L_def
    by (intro exI[of _ ps] exI[of _ pc]) (simp add: minPartSize_def)
qed

text \<open>The hypotheses of C2 at 20 MiB and 4 processors, which give 8 workers.\<close>

theorem computeParts_equal_width_witness:
  "0 \<le> ContentLength (NewResolvedLocation ''http://host/f'' (20 * 1024 * 1024) ''out.bin'' True) \<and>
   ContentLength (NewResolvedLocation ''http://host/f'' (20 * 1024 * 1024) ''out.bin'' True) < 2 ^ 63 \<and>
   (1::int) \<le> 4 \<and> (4::int) < 2 ^ 62 \<and> getMaxPartCount 4 = 8 \<and>
   (\<exists>ps. computeParts 4 minPartSize (NewResolvedLocation ''http://host/f'' (20 * 1024 * 1024) ''out.bin'' True) =
           Inr (NewResolvedLocation ''http://host/f'' (20 * 1024 * 1024) ''out.bin'' True \<lparr> Parts := ps \<rparr>)
         \<and> length ps = 4
         \<and> map (\<lambda>p. (Start p, End p)) ps =
             [(0, 5242880), (5242880, 10485760), (10485760, 15728640), (15728640, 20971520)])"
proof -
  have g: "getMaxPartCount 4 = 8" by (simp add: getMaxPartCount_def wrap64_def)
  have c: "clamp (20971520 div minPartSize) 1 8 = 4" by (simp add: clamp_def minPartSize_def)
  show ?thesis
    using computeParts_equal_width [of "NewResolvedLocation ''http://host/f'' (20 * 1024 * 1024) ''out.bin'' True" 4]
    by (auto simp: NewResolvedLocation_def g c)
qed

section \<open>Properties of the resolver\<close>












section \<open>Properties of reassembly and verification\<close>

lemma files_record_call [simp]: "files (record_call c fs) = files fs"
  by (simp add: record_call_def)

lemma calls_record_call [simp]: "calls (record_call c fs) = calls fs @ [c]"
  by (simp add: record_call_def)

lemma read_to_end_frame:
  "read_to_end h fs = (r, fs') \<Longrightarrow> files fs' = files fs \<and> calls fs' = calls fs @ [CallRead (h_name h)]"
  by (auto simp: read_to_end_def Let_def split: if_splits option.splits)

lemma os_OpenFile_frame:
  "os_OpenFile name flags fs = (r, fs') \<Longrightarrow>
     files fs' = files fs \<and> calls fs' = calls fs @ [CallOpen name flags]
     \<and> (\<forall>h. r = Inr h \<longrightarrow> h = \<lparr> h_name = name, h_flags = flags \<rparr>)"
  by (auto simp: os_OpenFile_def split: if_splits)

text \<open>
  Claim C9. With no expected checksum and exactly one part, \<open>concatenateParts\<close>
  returns success and the file system it was given: no file has been opened,
  read or changed, and no call at all has been made.
\<close>

theorem concatenateParts_no_checksum_single_part:
  assumes "length (Parts actualLocation) = 1"
  shows "concatenateParts sha512_sum actualLocation '''' fs = (None, fs)"
  using assms by (simp add: concatenateParts_def)

text \<open>The hypothesis of C9 at the download in one part.\<close>

theorem concatenateParts_no_checksum_single_part_witness:
  "length (Parts one_part_location) = 1
   \<and> concatenateParts sha512_table one_part_location '''' one_part_files = (None, one_part_files)
   \<and> files one_part_files ''out.bin'' = Some [1, 2, 3]
   \<and> calls one_part_files = []"
proof -
  have h: "length (Parts one_part_location) = 1" by (simp add: one_part_location_def)
  show ?thesis
    using h concatenateParts_no_checksum_single_part [OF h, of sha512_table one_part_files]
    by (simp add: one_part_files_def)
qed

text \<open>
  Claim C10. With an expected checksum and exactly one part, \<open>concatenateParts\<close>
  opens the file of that part read-only, and every call after that is a read or
  the close of this file; whatever the result, the bytes of every file are as
  before.
\<close>

theorem concatenateParts_checksum_single_part_reads_only:
  assumes "expectedSha512 \<noteq> ''''" and "Parts actualLocation = [part]"
  shows "files (snd (concatenateParts sha512_sum actualLocation expectedSha512 fs)) = files fs
       \<and> (\<exists>after. calls (snd (concatenateParts sha512_sum actualLocation expectedSha512 fs)) =
             calls fs @ CallOpen (Name part) \<lparr> access = O_RDONLY, O_APPEND = False \<rparr> # after
           \<and> set after \<subseteq> {CallRead (Name part), CallClose (Name part)})"
proof -
  let ?mode = "\<lparr> access = O_RDONLY, O_APPEND = False \<rparr>"
  obtain r fs1 where op: "os_OpenFile (Name part) ?mode fs = (r, fs1)"
    by (cases "os_OpenFile (Name part) ?mode fs")
  note f1 = os_OpenFile_frame[OF op]
  show ?thesis
  proof (cases r)
    case (Inl e)
    then show ?thesis using assms op f1 by (simp add: concatenateParts_def)
  next
    case (Inr totalFile)
    then have h: "h_name totalFile = Name part" using f1 by simp
    obtain bs failed fs2 where rd: "read_to_end totalFile fs1 = ((bs, failed), fs2)"
      by (cases "read_to_end totalFile fs1") auto
    note f2 = read_to_end_frame[OF rd]
    show ?thesis using assms op Inr rd f1 f2 h
      by (simp add: concatenateParts_def util_Close_def Let_def)
  qed
qed

lemma sound_file_record_call [simp]: "sound_file (record_call c fs) name = sound_file fs name"
  by (simp add: sound_file_def record_call_def)

lemma file_bytes_record_call [simp]: "file_bytes (record_call c fs) name = file_bytes fs name"
  by (simp add: file_bytes_def)

lemma faults_record_call [simp]:
  "open_refused (record_call c fs) = open_refused fs"
  "read_breaks (record_call c fs) = read_breaks fs"
  "write_refused (record_call c fs) = write_refused fs"
  "close_refused (record_call c fs) = close_refused fs"
  "remove_refused (record_call c fs) = remove_refused fs"
  by (simp_all add: record_call_def)

lemma sound_file_bytes: "sound_file fs name \<Longrightarrow> files fs name = Some (file_bytes fs name)"
  by (auto simp: sound_file_def file_bytes_def)

lemma os_OpenFile_sound:
  "sound_file fs name \<Longrightarrow>
     os_OpenFile name flags fs = (Inr \<lparr> h_name = name, h_flags = flags \<rparr>, record_call (CallOpen name flags) fs)"
  by (simp add: os_OpenFile_def sound_file_def)

lemma read_to_end_sound:
  "sound_file fs (h_name h) \<Longrightarrow> access (h_flags h) \<noteq> O_WRONLY \<Longrightarrow>
     read_to_end h fs = ((file_bytes fs (h_name h), False), record_call (CallRead (h_name h)) fs)"
  by (simp add: read_to_end_def sound_file_def Let_def)

text \<open>The file system after one round of the loop.\<close>

lemma concatenateParts_loop_step:
  assumes w: "access (h_flags totalFile) \<noteq> O_RDONLY"
    and s0: "sound_file fs (h_name totalFile)"
    and s1: "sound_file fs (Name p)"
    and ne: "Name p \<noteq> h_name totalFile"
  shows "\<exists>fs'. concatenateParts_loop hc totalFile (p # parts) inputHash fs =
           concatenateParts_loop hc totalFile parts
             (if hc then inputHash @ file_bytes fs (Name p) else inputHash) fs'
         \<and> files fs' = (files fs) (h_name totalFile \<mapsto> file_bytes fs (h_name totalFile) @ file_bytes fs (Name p),
                                   Name p := None)
         \<and> open_refused fs' = open_refused fs \<and> read_breaks fs' = read_breaks fs
         \<and> write_refused fs' = write_refused fs \<and> close_refused fs' = close_refused fs
         \<and> remove_refused fs' = remove_refused fs"
proof -
  let ?n0 = "h_name totalFile" and ?n1 = "Name p"
  let ?pf = "\<lparr> h_name = ?n1, h_flags = \<lparr> access = O_RDONLY, O_APPEND = False \<rparr> \<rparr>"
  define fs1 where "fs1 = record_call (CallOpen ?n1 \<lparr> access = O_RDONLY, O_APPEND = False \<rparr>) fs"
  define fs1' where "fs1' = record_call (CallRead ?n1) fs1"
  define bs where "bs = file_bytes fs ?n1"
  have op: "os_Open ?n1 fs = (Inr ?pf, fs1)"
    using s1 by (simp add: os_Open_def os_OpenFile_sound fs1_def)
  have rd: "read_to_end ?pf fs1 = ((bs, False), fs1')"
    using s1 by (simp add: read_to_end_sound fs1_def fs1'_def bs_def)
  define fs2 where "fs2 = (if bs = [] then fs1'
      else (record_call (CallWrite ?n0 bs) fs1') \<lparr> files := (files fs) (?n0 \<mapsto> file_bytes fs ?n0 @ bs) \<rparr>)"
  have cp: "copy_file totalFile ?pf fs1 = ((bs, False), fs2)"
    using rd w s0
    by (simp add: copy_file_def write_bytes_def Let_def fs2_def fs1'_def fs1_def sound_file_def)
  have files2: "files fs2 = (files fs) (?n0 \<mapsto> file_bytes fs ?n0 @ bs)"
    using sound_file_bytes[OF s0]
    by (auto simp: fs2_def fs1'_def fs1_def)
  have faults2: "open_refused fs2 = open_refused fs" "read_breaks fs2 = read_breaks fs"
    "write_refused fs2 = write_refused fs" "close_refused fs2 = close_refused fs"
    "remove_refused fs2 = remove_refused fs"
    by (simp_all add: fs2_def fs1'_def fs1_def)
  define fs3 where "fs3 = record_call (CallClose ?n1) fs2"
  have cl: "CloseAndCheckError False ?pf fs2 = (None, fs3)"
    using s1 faults2 by (simp add: CloseAndCheckError_def fs3_def sound_file_def)
  define fs4 where "fs4 = (record_call (CallRemove ?n1) fs3) \<lparr> files := (files fs3) (?n1 := None) \<rparr>"
  have "files fs3 ?n1 \<noteq> None" using s1 ne files2 by (simp add: fs3_def sound_file_def)
  moreover have "?n1 \<notin> remove_refused fs3" using s1 faults2 by (simp add: fs3_def sound_file_def)
  ultimately have rm: "snd (os_Remove ?n1 fs3) = fs4"
    by (auto simp: os_Remove_def Let_def fs4_def)
  have step: "concatenateParts_loop hc totalFile (p # parts) inputHash fs =
           concatenateParts_loop hc totalFile parts (if hc then inputHash @ bs else inputHash) fs4"
    using op cp cl rm by (simp add: Let_def)
  have files4: "files fs4 = (files fs) (?n0 \<mapsto> file_bytes fs ?n0 @ bs, ?n1 := None)"
    using files2 by (simp add: fs4_def fs3_def)
  have faults4: "open_refused fs4 = open_refused fs" "read_breaks fs4 = read_breaks fs"
    "write_refused fs4 = write_refused fs" "close_refused fs4 = close_refused fs"
    "remove_refused fs4 = remove_refused fs"
    using faults2 by (simp_all add: fs4_def fs3_def)
  show ?thesis using step files4 faults4 unfolding bs_def by blast
qed

lemma concatenateParts_loop_sound:
  assumes "parts \<noteq> [] \<longrightarrow> access (h_flags totalFile) \<noteq> O_RDONLY"
    and "sound_file fs (h_name totalFile)"
    and "\<forall>p \<in> set parts. sound_file fs (Name p)"
    and "h_name totalFile \<notin> Name ` set parts"
    and "distinct (map Name parts)"
  shows "\<exists>fs'. concatenateParts_loop hc totalFile parts inputHash fs =
           (Inr (if hc then inputHash @ assembled fs parts else inputHash), fs')
         \<and> files fs' = (\<lambda>n. if n = h_name totalFile
                             then Some (file_bytes fs (h_name totalFile) @ assembled fs parts)
                             else if n \<in> Name ` set parts then None else files fs n)"
  using assms
proof (induction parts arbitrary: inputHash fs)
  case Nil
  then show ?case using sound_file_bytes[of fs "h_name totalFile"]
    by (auto simp: assembled_def)
next
  case (Cons p parts)
  let ?n0 = "h_name totalFile"
  have w: "access (h_flags totalFile) \<noteq> O_RDONLY" using Cons.prems(1) by simp
  have ne: "Name p \<noteq> ?n0" using Cons.prems(4) by auto
  have s1: "sound_file fs (Name p)" using Cons.prems(3) by simp
  obtain fs1 where step: "concatenateParts_loop hc totalFile (p # parts) inputHash fs =
           concatenateParts_loop hc totalFile parts
             (if hc then inputHash @ file_bytes fs (Name p) else inputHash) fs1"
    and files1: "files fs1 = (files fs) (?n0 \<mapsto> file_bytes fs ?n0 @ file_bytes fs (Name p), Name p := None)"
    and faults1: "open_refused fs1 = open_refused fs" "read_breaks fs1 = read_breaks fs"
       "write_refused fs1 = write_refused fs" "close_refused fs1 = close_refused fs"
       "remove_refused fs1 = remove_refused fs"
    using concatenateParts_loop_step[OF w Cons.prems(2) s1 ne, of hc parts inputHash] by blast
  have np: "Name p \<notin> Name ` set parts" using Cons.prems(5) by simp
  have n0: "?n0 \<notin> Name ` set parts" using Cons.prems(4) by simp
  have neq: "Name q \<noteq> ?n0" "Name q \<noteq> Name p" if "q \<in> set parts" for q
    using that np n0 by (metis imageI)+
  have other: "files fs1 n = files fs n" if "n \<noteq> ?n0" "n \<noteq> Name p" for n
    using that files1 by simp
  have bytes_other: "file_bytes fs1 (Name q) = file_bytes fs (Name q)" if "q \<in> set parts" for q
  proof -
    have "Name q \<noteq> ?n0" using that neq by simp
    moreover have "Name q \<noteq> Name p" using that neq by simp
    ultimately show ?thesis using other by (simp add: file_bytes_def)
  qed
  have sound_other: "sound_file fs1 (Name q)" if "q \<in> set parts" for q
  proof -
    have "Name q \<noteq> ?n0" using that neq by simp
    moreover have "Name q \<noteq> Name p" using that neq by simp
    moreover have "sound_file fs (Name q)" using that Cons.prems(3) by simp
    ultimately show ?thesis using other faults1 by (simp add: sound_file_def)
  qed
  have sound0: "sound_file fs1 ?n0"
    using Cons.prems(2) files1 faults1 ne by (simp add: sound_file_def)
  have bytes0: "file_bytes fs1 ?n0 = file_bytes fs ?n0 @ file_bytes fs (Name p)"
    using files1 ne by (simp add: file_bytes_def)
  have asm: "assembled fs1 parts = assembled fs parts"
    using bytes_other by (simp add: assembled_def cong: map_cong)
  have "parts \<noteq> [] \<longrightarrow> access (h_flags totalFile) \<noteq> O_RDONLY" using w by simp
  moreover have "\<forall>q \<in> set parts. sound_file fs1 (Name q)" using sound_other by simp
  moreover have "?n0 \<notin> Name ` set parts" using Cons.prems(4) by auto
  moreover have "distinct (map Name parts)" using Cons.prems(5) by simp
  ultimately obtain fs' where
    rec: "concatenateParts_loop hc totalFile parts
             (if hc then inputHash @ file_bytes fs (Name p) else inputHash) fs1 =
           (Inr (if hc then (if hc then inputHash @ file_bytes fs (Name p) else inputHash) @ assembled fs1 parts
                 else (if hc then inputHash @ file_bytes fs (Name p) else inputHash)), fs')"
    and files': "files fs' = (\<lambda>n. if n = ?n0 then Some (file_bytes fs1 ?n0 @ assembled fs1 parts)
                             else if n \<in> Name ` set parts then None else files fs1 n)"
    using Cons.IH[OF _ sound0, of "if hc then inputHash @ file_bytes fs (Name p) else inputHash"] by blast
  have cons: "assembled fs (p # parts) = file_bytes fs (Name p) @ assembled fs parts"
    by (simp add: assembled_def)
  have res: "concatenateParts_loop hc totalFile (p # parts) inputHash fs =
           (Inr (if hc then inputHash @ assembled fs (p # parts) else inputHash), fs')"
    using step rec asm cons by simp
  have "files fs' = (\<lambda>n. if n = ?n0 then Some (file_bytes fs ?n0 @ assembled fs (p # parts))
                             else if n \<in> Name ` set (p # parts) then None else files fs n)"
    using files' files1 bytes0 asm cons ne by (auto simp: fun_eq_iff)
  with res show ?case by blast
qed

lemma assembled_record_call [simp]: "assembled (record_call c fs) parts = assembled fs parts"
  by (simp add: assembled_def)

lemma concatenateParts_sound:
  assumes e: "expected \<noteq> []"
    and ps: "Parts loc = part0 # parts"
    and snd: "\<forall>p \<in> set (Parts loc). sound_file fs (Name p)"
    and dis: "distinct (map Name (Parts loc))"
  shows "\<exists>fs'. concatenateParts H loc expected fs =
           (if base64_encode (H (assembled fs (Parts loc))) \<noteq> expected
            then Some (ChecksumMismatchError expected (base64_encode (H (assembled fs (Parts loc)))))
            else None, fs')
         \<and> files fs' = (\<lambda>n. if n = Name part0 then Some (assembled fs (Parts loc))
                             else if n \<in> Name ` set parts then None else files fs n)"
proof -
  let ?n0 = "Name part0"
  define mode where "mode = (if length (Parts loc) = 1 then \<lparr> access = O_RDONLY, O_APPEND = False \<rparr>
                              else \<lparr> access = O_RDWR, O_APPEND = True \<rparr>)"
  define totalFile where "totalFile = \<lparr> h_name = ?n0, h_flags = mode \<rparr>"
  define fs1 where "fs1 = record_call (CallOpen ?n0 mode) fs"
  define fs2 where "fs2 = record_call (CallRead ?n0) fs1"
  have s0: "sound_file fs ?n0" using snd ps by simp
  have op: "os_OpenFile ?n0 mode fs = (Inr totalFile, fs1)"
    using s0 by (simp add: os_OpenFile_sound totalFile_def fs1_def)
  have nw: "access (h_flags totalFile) \<noteq> O_WRONLY" by (simp add: totalFile_def mode_def)
  have rd: "read_to_end totalFile fs1 = ((file_bytes fs ?n0, False), fs2)"
    using read_to_end_sound[of fs1 totalFile] s0 nw by (simp add: fs1_def fs2_def totalFile_def)
  have a1: "parts \<noteq> [] \<longrightarrow> access (h_flags totalFile) \<noteq> O_RDONLY"
    using ps by (simp add: totalFile_def mode_def)
  have a2: "sound_file fs2 (h_name totalFile)" using s0 by (simp add: fs2_def fs1_def totalFile_def)
  have a3: "\<forall>p \<in> set parts. sound_file fs2 (Name p)" using snd ps by (simp add: fs2_def fs1_def)
  have a4: "h_name totalFile \<notin> Name ` set parts" using dis ps by (simp add: totalFile_def)
  have a5: "distinct (map Name parts)" using dis ps by simp
  have same: "file_bytes fs2 ?n0 = file_bytes fs ?n0" "assembled fs2 parts = assembled fs parts"
    "files fs2 = files fs" "h_name totalFile = ?n0"
    by (simp_all add: fs2_def fs1_def totalFile_def)
  have asm: "file_bytes fs ?n0 @ assembled fs parts = assembled fs (Parts loc)"
    by (simp add: ps assembled_def)
  obtain fs3 where
    lp: "concatenateParts_loop True totalFile parts (file_bytes fs ?n0) fs2 =
           (Inr (assembled fs (Parts loc)), fs3)"
    and files3: "files fs3 = (\<lambda>n. if n = ?n0 then Some (assembled fs (Parts loc))
                             else if n \<in> Name ` set parts then None else files fs n)"
    using concatenateParts_loop_sound[OF a1 a2 a3 a4 a5, of True "file_bytes fs ?n0"]
    unfolding same asm by auto
  define fs4 where "fs4 = util_Close totalFile fs3"
  have files4: "files fs4 = (\<lambda>n. if n = ?n0 then Some (assembled fs (Parts loc))
                             else if n \<in> Name ` set parts then None else files fs n)"
    using files3 by (simp add: fs4_def util_Close_def)
  have res: "concatenateParts H loc expected fs =
           (if base64_encode (H (assembled fs (Parts loc))) \<noteq> expected
            then Some (ChecksumMismatchError expected (base64_encode (H (assembled fs (Parts loc)))))
            else None, fs4)"
  proof (cases "parts = []")
    case True
    then have m: "mode = \<lparr> access = O_RDONLY, O_APPEND = False \<rparr>" by (simp add: mode_def ps)
    show ?thesis
      unfolding concatenateParts_def using e op rd lp True
      by (simp add: ps m fs4_def Let_def)
  next
    case False
    then have m: "mode = \<lparr> access = O_RDWR, O_APPEND = True \<rparr>" by (simp add: mode_def ps)
    show ?thesis
      unfolding concatenateParts_def using e op rd lp False
      by (simp add: ps m fs4_def Let_def)
  qed
  show ?thesis using res files4 by blast
qed

lemma length_base64_encode: "length (base64_encode bs) = 4 * ((length bs + 2) div 3)"
proof (induction bs rule: base64_encode.induct)
  case (4 a b c rest)
  have "(length rest + 5) div 3 = (length rest + 2) div 3 + 1" by presburger
  then show ?case using 4 by (simp add: Let_def add.commute)
qed (simp_all add: Let_def)

lemma length_hex_encode: "length (hex_encode bs) = 2 * length bs"
  by (induction bs) (simp_all add: hex_encode_def)

lemma hex_neq_base64:
  assumes "length d = 64"
  shows "base64_encode d \<noteq> hex_encode d" "base64_encode d \<noteq> []" "hex_encode d \<noteq> []"
proof -
  have "length (base64_encode d) = 88" using assms by (simp add: length_base64_encode)
  moreover have "length (hex_encode d) = 128" using assms by (simp add: length_hex_encode)
  ultimately show "base64_encode d \<noteq> hex_encode d" "base64_encode d \<noteq> []" "hex_encode d \<noteq> []"
    by auto
qed

lemma b64_010203: "base64_encode sha512_of_010203 =
   ''J4ZMxSGalRp6blK4yN3faYHQmNoWWNliWMhwssiN+8tRhBrqFyoouvpqeXMRZVhGdwZgRclZ7Q+ZKWiNBN78KQ==''"
  by (simp add: sha512_of_010203_def base64_char_def base64_alphabet_def Let_def)

lemma hex_010203: "hex_encode sha512_of_010203 =
   ''27864cc5219a951a7a6e52b8c8dddf6981d098da1658d96258c870b2c88dfbcb51841aea172a28bafa6a79731165584677066045c959ed0f9929688d04defc29''"
  by (simp add: sha512_of_010203_def hex_encode_def hex_char_def)



lemma one_part_sound:
  "\<forall>p \<in> set (Parts one_part_location). sound_file one_part_files (Name p)"
  "distinct (map Name (Parts one_part_location))"
  "assembled one_part_files (Parts one_part_location) = [1, 2, 3]"
  by (simp_all add: one_part_location_def one_part_files_def sound_file_def assembled_def file_bytes_def)

text \<open>The hypotheses of C10 at the download in one part, with a wrong checksum.\<close>

theorem concatenateParts_checksum_single_part_reads_only_witness:
  "''wrong'' \<noteq> ''''
   \<and> Parts one_part_location = [\<lparr> Name = ''out.bin'', Start = 0, End = 3, Skip = False, isFail = False \<rparr>]
   \<and> files (snd (concatenateParts sha512_table one_part_location ''wrong'' one_part_files)) =
       files one_part_files
   \<and> (\<exists>after. calls (snd (concatenateParts sha512_table one_part_location ''wrong'' one_part_files)) =
         calls one_part_files @ CallOpen ''out.bin'' \<lparr> access = O_RDONLY, O_APPEND = False \<rparr> # after
       \<and> set after \<subseteq> {CallRead ''out.bin'', CallClose ''out.bin''})"
proof -
  have p: "Parts one_part_location = [\<lparr> Name = ''out.bin'', Start = 0, End = 3, Skip = False, isFail = False \<rparr>]"
    by (simp add: one_part_location_def)
  have ne: "''wrong'' \<noteq> ''''" by simp
  show ?thesis
    using concatenateParts_checksum_single_part_reads_only
            [OF ne p, of sha512_table one_part_files] p ne
    by simp
qed

section \<open>Properties of the download\<close>

lemma sprintf_d_digit: "0 \<le> i \<Longrightarrow> i < 10 \<Longrightarrow> sprintf_d i = [digit_char (nat i)]"
  by (simp add: sprintf_d_def decimal_nat.simps)

lemma computeParts_loop_step:
  assumes "i < pc" "0 \<le> s + ps" "s + ps \<le> L" "L < 2 ^ 63"
  shows "computeParts_loop out L ps pc i s =
     \<lparr> Name = (if i = 0 then out else out @ ''.part'' @ sprintf_d i), Start = s,
       End = (if i = pc - 1 then L else s + ps), Skip = False, isFail = False \<rparr>
     # computeParts_loop out L ps pc (i + 1) (if i = pc - 1 then L else s + ps)"
proof -
  have "wrap64 (s + ps) = s + ps" using assms by (intro wrap64_id) auto
  then show ?thesis using assms by (subst computeParts_loop.simps) (simp add: Let_def)
qed

lemma computeParts_loop_done: "\<not> i < pc \<Longrightarrow> computeParts_loop out L ps pc i s = []"
  by (subst computeParts_loop.simps) simp

lemma eight_parts:
  "computeParts 4 minPartSize eight_part_location =
     Inr (eight_part_location \<lparr> Parts :=
       [\<lparr> Name = ''out.bin'', Start = 0, End = 5242880, Skip = False, isFail = False \<rparr>,
        \<lparr> Name = ''out.bin.part1'', Start = 5242880, End = 10485760, Skip = False, isFail = False \<rparr>,
        \<lparr> Name = ''out.bin.part2'', Start = 10485760, End = 15728640, Skip = False, isFail = False \<rparr>,
        \<lparr> Name = ''out.bin.part3'', Start = 15728640, End = 20971520, Skip = False, isFail = False \<rparr>,
        \<lparr> Name = ''out.bin.part4'', Start = 20971520, End = 26214400, Skip = False, isFail = False \<rparr>,
        \<lparr> Name = ''out.bin.part5'', Start = 26214400, End = 31457280, Skip = False, isFail = False \<rparr>,
        \<lparr> Name = ''out.bin.part6'', Start = 31457280, End = 36700160, Skip = False, isFail = False \<rparr>,
        \<lparr> Name = ''out.bin.part7'', Start = 36700160, End = 41943040, Skip = False, isFail = False \<rparr>] \<rparr>)"
proof -
  have count: "partCountOf 4 minPartSize 41943040 = 8"
    by (simp add: partCountOf_def minPartSize_def getMaxPartCount_def wrap64_def)
  have loop: "computeParts_loop ''out.bin'' 41943040 5242880 8 0 0 =
       [\<lparr> Name = ''out.bin'', Start = 0, End = 5242880, Skip = False, isFail = False \<rparr>,
        \<lparr> Name = ''out.bin.part1'', Start = 5242880, End = 10485760, Skip = False, isFail = False \<rparr>,
        \<lparr> Name = ''out.bin.part2'', Start = 10485760, End = 15728640, Skip = False, isFail = False \<rparr>,
        \<lparr> Name = ''out.bin.part3'', Start = 15728640, End = 20971520, Skip = False, isFail = False \<rparr>,
        \<lparr> Name = ''out.bin.part4'', Start = 20971520, End = 26214400, Skip = False, isFail = False \<rparr>,
        \<lparr> Name = ''out.bin.part5'', Start = 26214400, End = 31457280, Skip = False, isFail = False \<rparr>,
        \<lparr> Name = ''out.bin.part6'', Start = 31457280, End = 36700160, Skip = False, isFail = False \<rparr>,
        \<lparr> Name = ''out.bin.part7'', Start = 36700160, End = 41943040, Skip = False, isFail = False \<rparr>]"
    by (simp add: computeParts_loop_step computeParts_loop_done sprintf_d_digit digit_char_def)
  show ?thesis
    using computeParts_known_length[of eight_part_location minPartSize 4]
    by (simp add: eight_part_location_def NewResolvedLocation_def count loop)
      (simp add: minPartSize_def)
qed


lemma upt_8: "[0..<8] = [0, 1, 2, 3, 4, 5, 6, 7]"
  by (simp add: upt_rec)

lemma DownloadResolved_download_error:
  assumes "computeParts numCPU minPartSize location0 = Inr location1"
    and "MapAsyncConcurrency (length (Parts location1)) (getMaxPartCount numCPU)
           (download_task download) \<lparr> location = location1, fsys = fs, cancelled = False \<rparr> = (Some err, s)"
  shows "DownloadResolved numCPU sha512_sum download location0 sha512 fs = (Some err, s)"
  using assms by (simp add: DownloadResolved_def)


text \<open>
  Claim C5 says that when a part download fails, \<open>DownloadResolved\<close> triggers the
  cancellation and then surfaces the first error. The code returns the error of
  \<open>MapAsyncConcurrency\<close> before it reaches the loop that calls \<open>cancel()\<close> for a
  failed part. Here the 40 MiB resource is downloaded in eight parts and the
  request of part 3 fails: the call returns the error of part 3, part 3 is
  marked as failed, and \<open>cancel()\<close> has not been called.
\<close>

theorem DownloadResolved_part_failure_not_cancelled:
  "fst (DownloadResolved 4 sha512_table part_3_fails eight_part_location '''' empty_files) =
     Some (PartDownloadError 3)
   \<and> map isFail (Parts (location (snd
         (DownloadResolved 4 sha512_table part_3_fails eight_part_location '''' empty_files)))) =
       [False, False, False, True, False, False, False, False]
   \<and> cancelled (snd
         (DownloadResolved 4 sha512_table part_3_fails eight_part_location '''' empty_files)) = False"
proof -
  let ?loc8 = "eight_part_location \<lparr> Parts :=
       [\<lparr> Name = ''out.bin'', Start = 0, End = 5242880, Skip = False, isFail = False \<rparr>,
        \<lparr> Name = ''out.bin.part1'', Start = 5242880, End = 10485760, Skip = False, isFail = False \<rparr>,
        \<lparr> Name = ''out.bin.part2'', Start = 10485760, End = 15728640, Skip = False, isFail = False \<rparr>,
        \<lparr> Name = ''out.bin.part3'', Start = 15728640, End = 20971520, Skip = False, isFail = False \<rparr>,
        \<lparr> Name = ''out.bin.part4'', Start = 20971520, End = 26214400, Skip = False, isFail = False \<rparr>,
        \<lparr> Name = ''out.bin.part5'', Start = 26214400, End = 31457280, Skip = False, isFail = False \<rparr>,
        \<lparr> Name = ''out.bin.part6'', Start = 31457280, End = 36700160, Skip = False, isFail = False \<rparr>,
        \<lparr> Name = ''out.bin.part7'', Start = 36700160, End = 41943040, Skip = False, isFail = False \<rparr>] \<rparr>"
  have len: "length (Parts ?loc8) = 8" by simp
  obtain err s where run: "MapAsyncConcurrency 8 (getMaxPartCount 4) (download_task part_3_fails)
       \<lparr> location = ?loc8, fsys = empty_files, cancelled = False \<rparr> = (err, s)"
    by (meson surj_pair)
  from run have ev: "err = Some (PartDownloadError 3)
      \<and> map isFail (Parts (location s)) = [False, False, False, True, False, False, False, False]
      \<and> cancelled s = False"
    by (auto simp: MapAsyncConcurrency_def upt_8 download_task_def part_3_fails_def empty_files_def Let_def)
  have run': "MapAsyncConcurrency (length (Parts ?loc8)) (getMaxPartCount 4) (download_task part_3_fails)
       \<lparr> location = ?loc8, fsys = empty_files, cancelled = False \<rparr> = (Some (PartDownloadError 3), s)"
    unfolding len using run ev by simp
  have "DownloadResolved 4 sha512_table part_3_fails eight_part_location '''' empty_files =
      (Some (PartDownloadError 3), s)"
    by (rule DownloadResolved_download_error[OF eight_parts run'])
  then show ?thesis using ev by simp
qed

section \<open>Properties of the checksum\<close>

lemma sha512_table_simps [simp]:
  "sha512_table [1, 2, 3] = sha512_of_010203"
  "sha512_table [1, 2, 3, 4, 5] = sha512_of_0102030405"
  by (simp_all add: sha512_table_def)





text \<open>
  Claim C8 as stated says that the hex encoding of the correct digest is
  accepted like the base64 encoding. It is not: for the download in one part,
  the base64 encoding of the SHA-512 digest of its three bytes passes and the
  hex encoding of the same digest fails with the checksum mismatch.
\<close>

theorem concatenateParts_hex_digest_counterexample:
  "hex_encode (sha512_table [1, 2, 3]) =
     ''27864cc5219a951a7a6e52b8c8dddf6981d098da1658d96258c870b2c88dfbcb51841aea172a28bafa6a79731165584677066045c959ed0f9929688d04defc29''
   \<and> fst (concatenateParts sha512_table one_part_location
            (base64_encode (sha512_table [1, 2, 3])) one_part_files) = None
   \<and> fst (concatenateParts sha512_table one_part_location
            (hex_encode (sha512_table [1, 2, 3])) one_part_files) =
       Some (ChecksumMismatchError
         ''27864cc5219a951a7a6e52b8c8dddf6981d098da1658d96258c870b2c88dfbcb51841aea172a28bafa6a79731165584677066045c959ed0f9929688d04defc29''
         ''J4ZMxSGalRp6blK4yN3faYHQmNoWWNliWMhwssiN+8tRhBrqFyoouvpqeXMRZVhGdwZgRclZ7Q+ZKWiNBN78KQ=='')"
  by (simp add: hex_010203 b64_010203 concatenateParts_def one_part_location_def one_part_files_def
        os_OpenFile_def read_to_end_def util_Close_def record_call_def file_bytes_def Let_def)

text \<open>
  Claim C8, amended. When the files of the parts are sound and have different
  names and the digest has the 64 bytes of SHA-512, the base64 encoding of the
  digest of the assembled bytes is accepted, its hex encoding is rejected with
  the checksum mismatch, and a non-empty expected string is accepted exactly
  when it is that base64 encoding.
\<close>

theorem concatenateParts_accepts_base64_only:
  assumes "Parts actualLocation = part0 # parts"
    and "\<forall>p \<in> set (Parts actualLocation). sound_file fs (Name p)"
    and "distinct (map Name (Parts actualLocation))"
    and "length (sha512_sum (assembled fs (Parts actualLocation))) = 64"
  shows "fst (concatenateParts sha512_sum actualLocation
                (base64_encode (sha512_sum (assembled fs (Parts actualLocation)))) fs) = None
       \<and> fst (concatenateParts sha512_sum actualLocation
                (hex_encode (sha512_sum (assembled fs (Parts actualLocation)))) fs) =
           Some (ChecksumMismatchError (hex_encode (sha512_sum (assembled fs (Parts actualLocation))))
                   (base64_encode (sha512_sum (assembled fs (Parts actualLocation)))))
       \<and> (\<forall>expectedSha512. expectedSha512 \<noteq> '''' \<longrightarrow>
             (fst (concatenateParts sha512_sum actualLocation expectedSha512 fs) = None
              \<longleftrightarrow> expectedSha512 = base64_encode (sha512_sum (assembled fs (Parts actualLocation)))))"
proof -
  let ?d = "sha512_sum (assembled fs (Parts actualLocation))"
  note enc = hex_neq_base64[OF assms(4)]
  have gen: "fst (concatenateParts sha512_sum actualLocation e fs) =
       (if base64_encode ?d \<noteq> e then Some (ChecksumMismatchError e (base64_encode ?d)) else None)"
    if "e \<noteq> ''''" for e
    using concatenateParts_sound[OF that assms(1-3), of sha512_sum] by auto
  show ?thesis using gen[of "base64_encode ?d"] gen[of "hex_encode ?d"] gen enc by auto
qed

text \<open>The hypotheses of the amended C8 at the download in one part.\<close>

theorem concatenateParts_accepts_base64_only_witness:
  "Parts one_part_location =
       \<lparr> Name = ''out.bin'', Start = 0, End = 3, Skip = False, isFail = False \<rparr> # []
   \<and> sound_file one_part_files ''out.bin''
   \<and> distinct (map Name (Parts one_part_location))
   \<and> length (sha512_table (assembled one_part_files (Parts one_part_location))) = 64
   \<and> fst (concatenateParts sha512_table one_part_location
       ''J4ZMxSGalRp6blK4yN3faYHQmNoWWNliWMhwssiN+8tRhBrqFyoouvpqeXMRZVhGdwZgRclZ7Q+ZKWiNBN78KQ==''
       one_part_files) = None
   \<and> fst (concatenateParts sha512_table one_part_location
       ''27864cc5219a951a7a6e52b8c8dddf6981d098da1658d96258c870b2c88dfbcb51841aea172a28bafa6a79731165584677066045c959ed0f9929688d04defc29''
       one_part_files) =
     Some (ChecksumMismatchError
       ''27864cc5219a951a7a6e52b8c8dddf6981d098da1658d96258c870b2c88dfbcb51841aea172a28bafa6a79731165584677066045c959ed0f9929688d04defc29''
       ''J4ZMxSGalRp6blK4yN3faYHQmNoWWNliWMhwssiN+8tRhBrqFyoouvpqeXMRZVhGdwZgRclZ7Q+ZKWiNBN78KQ=='')"
proof -
  have p: "Parts one_part_location =
       \<lparr> Name = ''out.bin'', Start = 0, End = 3, Skip = False, isFail = False \<rparr> # []"
    by (simp add: one_part_location_def)
  have len: "length (sha512_table (assembled one_part_files (Parts one_part_location))) = 64"
    by (simp add: one_part_sound(3) sha512_of_010203_def)
  show ?thesis
    using concatenateParts_accepts_base64_only [where sha512_sum = sha512_table, OF p one_part_sound(1,2) len] p len one_part_sound
    by (simp add: b64_010203 hex_010203 one_part_location_def)
qed

end
